theory Spec2Isabelle
  imports Complex_Main "HOL-Library.AList"
begin

section \<open>JavaScript values\<close>

text \<open>
  The state tree of a \<open>BindingStore\<close> is typed \<open>Record<string, any>\<close>. The values of the
  model are the primitives, plain objects, and references to the built-in objects that
  every plain object inherits from.

  A plain object (\<open>JObj\<close>) is an ordinary, extensible object whose prototype is
  \<open>Object.prototype\<close>, given by the list of its own properties, all of them writable
  data properties (the first entry for a key counts; the order of the list carries no
  meaning). \<open>JInherited key\<close>, for a key that names a property of \<open>Object.prototype\<close>, is
  the built-in object that a plain object yields under that key when it has no own
  property of that name: \<open>Object.prototype\<close> itself for \<open>__proto__\<close>, and the function
  that \<open>Object.prototype\<close> holds under the name for the other keys (\<open>Object\<close> for
  \<open>constructor\<close>). \<open>Object.prototype\<close> is taken as the engine creates it.
  A string is the list of its code units, each below 256. A number is a double:
  not-a-number, an infinity, negative zero, or a finite value (\<open>Fin 0\<close> is positive zero).

  Values are immutable here, so the model describes the tree as seen through the
  store's own reads and writes. Arrays, functions and objects with another prototype
  stored as values are not described.
\<close>

datatype jsnum = NaN | PosInf | NegInf | NegZero | Fin rat

datatype jsval =
    JUndefined
  | JNull
  | JBool bool
  | JNum jsnum
  | JStr string
  | JObj "(string \<times> jsval) list"
  | JInherited string

text \<open>
  What a call can throw: the engine's \<open>TypeError\<close>, or whatever a user-supplied
  transform or validator throws.
\<close>

datatype js_error = TypeError | UserThrow jsval

text \<open>
  How an operation ends. \<open>Beyond\<close> marks a run that leaves what the model describes (it
  reads or writes inside a built-in object, reads a property of a primitive other than
  a string's length, or changes an object's prototype): about such a run nothing is
  said, neither that it returns nor that it throws, nor what it leaves behind.
\<close>

datatype 'a result = Returns 'a | Throws js_error | Beyond

text \<open>The names of the properties of \<open>Object.prototype\<close>.\<close>

definition object_prototype_keys :: "string list" where
  "object_prototype_keys =
     [''constructor'', ''__defineGetter__'', ''__defineSetter__'', ''hasOwnProperty'',
      ''__lookupGetter__'', ''__lookupSetter__'', ''isPrototypeOf'', ''propertyIsEnumerable'',
      ''toString'', ''valueOf'', ''__proto__'', ''toLocaleString'']"

section \<open>Path resolution\<close>

text \<open>\<open>path.split('.')\<close>: never empty; the empty path gives one empty key.\<close>

fun split_dot :: "string \<Rightarrow> string list" where
  "split_dot [] = [[]]"
| "split_dot (c # cs) =
     (if c = CHR ''.'' then [] # split_dot cs
      else (case split_dot cs of [] \<Rightarrow> [[c]] | k # ks \<Rightarrow> (c # k) # ks))"

text \<open>
  \<open>current?.[key]\<close>. On \<open>undefined\<close> and \<open>null\<close> the optional chain gives \<open>undefined\<close>. On a
  plain object an own property wins; a key that is not an own property is looked up in
  \<open>Object.prototype\<close>, where the \<open>__proto__\<close> getter returns the prototype and the other
  names hold functions; any other key gives \<open>undefined\<close>. A string has its \<open>length\<close>.
  Every other read on a primitive goes to the prototype of its wrapper, and a read on a
  built-in object into that object (where the \<open>caller\<close> and \<open>arguments\<close> accessors of
  functions throw): these are not described.
\<close>

fun js_get :: "jsval \<Rightarrow> string \<Rightarrow> jsval result" where
  "js_get JUndefined key = Returns JUndefined"
| "js_get JNull key = Returns JUndefined"
| "js_get (JObj props) key =
     (case map_of props key of
        Some v \<Rightarrow> Returns v
      | None \<Rightarrow>
          if key \<in> set object_prototype_keys then Returns (JInherited key)
          else Returns JUndefined)"
| "js_get (JStr s) key =
     (if key = ''length'' then Returns (JNum (Fin (of_nat (length s)))) else Beyond)"
| "js_get (JBool b) key = Beyond"
| "js_get (JNum n) key = Beyond"
| "js_get (JInherited k) key = Beyond"

text \<open>
  \<open>keys.reduce((current, key) => current?.[key], obj)\<close>: the keys in order, each read
  on the result of the one before.
\<close>

fun read_keys :: "jsval \<Rightarrow> string list \<Rightarrow> jsval result" where
  "read_keys current [] = Returns current"
| "read_keys current (key # keys) =
     (case js_get current key of
        Returns v \<Rightarrow> read_keys v keys
      | Throws e \<Rightarrow> Throws e
      | Beyond \<Rightarrow> Beyond)"

text \<open>\<open>getNestedValue\<close>\<close>

definition getNestedValue :: "jsval \<Rightarrow> string \<Rightarrow> jsval result" where
  "getNestedValue obj path = read_keys obj (split_dot path)"

text \<open>
  The \<open>__proto__\<close> setter of \<open>Object.prototype\<close> acts only on an object or \<open>null\<close>; any
  other value is ignored.
\<close>

definition is_object_or_null :: "jsval \<Rightarrow> bool" where
  "is_object_or_null v =
     (case v of JNull \<Rightarrow> True | JObj props \<Rightarrow> True | JInherited k \<Rightarrow> True | _ \<Rightarrow> False)"

text \<open>
  \<open>target[lastKey] = value\<close>, in strict mode (the module is an ES module). On a plain
  object an own property is overwritten; \<open>__proto__\<close>, when it is not an own property,
  reaches the inherited setter, which ignores a primitive value and otherwise replaces
  the prototype (not described); any other key becomes an own property. On \<open>undefined\<close>
  and \<open>null\<close> the assignment throws. On another primitive it throws as well, except for
  \<open>__proto__\<close>, where the inherited setter is called and does nothing. An assignment on
  a built-in object is not described. The source mutates in place; the model returns
  the updated target.
\<close>

definition assign_prop :: "jsval \<Rightarrow> string \<Rightarrow> jsval \<Rightarrow> jsval result" where
  "assign_prop target lastKey v =
     (case target of
        JObj props \<Rightarrow>
          if map_of props lastKey = None \<and> lastKey = ''__proto__''
          then (if is_object_or_null v then Beyond else Returns (JObj props))
          else Returns (JObj (AList.update lastKey v props))
      | JInherited k \<Rightarrow> Beyond
      | JUndefined \<Rightarrow> Throws TypeError
      | JNull \<Rightarrow> Throws TypeError
      | _ \<Rightarrow> if lastKey = ''__proto__'' then Returns target else Throws TypeError)"

text \<open>
  The body of \<open>setNestedValue\<close> after the split: the \<open>reduce\<close> over the leading keys,
  followed by the assignment of the last key. At each leading key, \<open>key in current\<close>
  throws \<open>TypeError\<close> when \<open>current\<close> is a primitive, \<open>null\<close> or \<open>undefined\<close>. On a plain
  object it holds for an own property, and the walk descends into its value; it holds
  for an inherited key too, and then the walk descends into a built-in object (not
  described); otherwise an empty object is created under the key and the walk descends
  into it. The model returns the updated tree. Every throw comes before the first
  creation or assignment, so a run that throws leaves the tree as it was.
\<close>

fun assign_at :: "jsval \<Rightarrow> string list \<Rightarrow> string \<Rightarrow> jsval \<Rightarrow> jsval result" where
  "assign_at current [] lastKey v = assign_prop current lastKey v"
| "assign_at current (key # keys) lastKey v =
     (case current of
        JObj props \<Rightarrow>
          (case map_of props key of
             Some child \<Rightarrow>
               map_result (\<lambda>child'. JObj (AList.update key child' props))
                 (assign_at child keys lastKey v)
           | None \<Rightarrow>
               if key \<in> set object_prototype_keys then Beyond
               else map_result (\<lambda>child'. JObj (AList.update key child' props))
                      (assign_at (JObj []) keys lastKey v))
      | JInherited k \<Rightarrow> Beyond
      | _ \<Rightarrow> Throws TypeError)"

definition setNestedValue :: "jsval \<Rightarrow> string \<Rightarrow> jsval \<Rightarrow> jsval result" where
  "setNestedValue obj path v =
     (let keys = split_dot path; lastKey = last keys
      in assign_at obj (butlast keys) lastKey v)"

section \<open>The binding store\<close>

datatype validation_timing = OnTouch | OnSubmit | OnChange

text \<open>
  \<open>BindingConfig\<close>. A transform or validator is a user function that returns a value or
  throws; a validator's result is any value (the code compares it with \<open>true\<close> and tests
  whether it is a string).
\<close>

record BindingConfig =
  transform :: "(jsval \<Rightarrow> js_error + jsval) option"
  validate :: "(jsval \<Rightarrow> js_error + jsval) option"
  debounce :: "jsnum option"
  immediate :: "bool option"
  validationTiming :: "validation_timing option"

text \<open>\<open>config?.transform\<close> and \<open>config?.validate\<close>\<close>

definition opt_transform :: "BindingConfig option \<Rightarrow> (jsval \<Rightarrow> js_error + jsval) option" where
  "opt_transform config = (case config of None \<Rightarrow> None | Some c \<Rightarrow> transform c)"

definition opt_validate :: "BindingConfig option \<Rightarrow> (jsval \<Rightarrow> js_error + jsval) option" where
  "opt_validate config = (case config of None \<Rightarrow> None | Some c \<Rightarrow> validate c)"

text \<open>
  The store. \<open>subscribers\<close> is a \<open>Map\<close> from a path to a \<open>Set\<close> object; the closure
  returned by \<open>subscribe\<close> keeps a reference to that \<open>Set\<close>, so the sets live in a heap
  of their own (\<open>subscriber_sets\<close>, addressed by \<open>nat\<close>, \<open>next_ref\<close> the next free
  address). A \<open>Set\<close> is the list of its members in insertion order. Callbacks
  (\<open>'cb\<close>) are compared by reference and are opaque: invoking one is recorded, not run,
  so a callback that itself acts on the store while it is being notified, or that
  throws, is outside the model (the store's users are expected not to do that).
\<close>

record 'cb BindingStore =
  state :: jsval
  subscribers :: "string \<rightharpoonup> nat"
  subscriber_sets :: "nat \<Rightarrow> 'cb list"
  next_ref :: nat
  configs :: "string \<rightharpoonup> BindingConfig"

text \<open>
  One callback invocation \<open>callback(value, path)\<close>, with the state tree that is in place
  when it runs.
\<close>

record 'cb invocation =
  callee :: 'cb
  arg_value :: jsval
  arg_path :: string
  tree_at_call :: jsval

text \<open>
  The calls of user code that an operation makes, in order: the configured transform
  and validator with their argument, and subscriber callbacks. An operation's run is
  the list of these calls together with how it ended; a run that throws leaves the
  store as it was.
\<close>

datatype 'cb effect =
    Transform_called jsval
  | Validator_called jsval
  | Subscriber_called "'cb invocation"

type_synonym ('cb, 'a) run = "'cb effect list \<times> 'a result"

text \<open>One statement after another: the second runs when the first has returned.\<close>

definition then_run :: "('cb, 'a) run \<Rightarrow> ('a \<Rightarrow> ('cb, 'b) run) \<Rightarrow> ('cb, 'b) run" where
  "then_run m k =
     (case m of
        (es, Returns x) \<Rightarrow> (case k x of (es', r) \<Rightarrow> (es @ es', r))
      | (es, Throws e) \<Rightarrow> (es, Throws e)
      | (es, Beyond) \<Rightarrow> (es, Beyond))"

definition call_transform :: "(jsval \<Rightarrow> js_error + jsval) \<Rightarrow> jsval \<Rightarrow> ('cb, jsval) run" where
  "call_transform t v =
     ([Transform_called v], case t v of Inl e \<Rightarrow> Throws e | Inr x \<Rightarrow> Returns x)"

definition call_validator :: "(jsval \<Rightarrow> js_error + jsval) \<Rightarrow> jsval \<Rightarrow> ('cb, jsval) run" where
  "call_validator validator v =
     ([Validator_called v], case validator v of Inl e \<Rightarrow> Throws e | Inr x \<Rightarrow> Returns x)"

text \<open>The constructor: \<open>this.state = { ...initialState }\<close>.\<close>

definition createBindingStore :: "(string \<times> jsval) list \<Rightarrow> 'cb BindingStore" where
  "createBindingStore initialState =
     \<lparr>state = JObj initialState, subscribers = Map.empty, subscriber_sets = (\<lambda>_. []),
      next_ref = 0, configs = Map.empty\<rparr>"

definition getValue :: "'cb BindingStore \<Rightarrow> string \<Rightarrow> jsval result" where
  "getValue st path = getNestedValue (state st) path"

definition notifySubscribers :: "'cb BindingStore \<Rightarrow> string \<Rightarrow> jsval \<Rightarrow> 'cb invocation list" where
  "notifySubscribers st path v =
     (case subscribers st path of
        None \<Rightarrow> []
      | Some r \<Rightarrow>
          map (\<lambda>callback. \<lparr>callee = callback, arg_value = v, arg_path = path,
                           tree_at_call = state st\<rparr>)
              (subscriber_sets st r))"

text \<open>
  The statement pair \<open>this.setNestedValue(this.state, path, processedValue);
  this.notifySubscribers(path, processedValue)\<close>, which \<open>setValue\<close> contains twice.
\<close>

definition set_and_notify :: "'cb BindingStore \<Rightarrow> string \<Rightarrow> jsval \<Rightarrow> ('cb, 'cb BindingStore) run" where
  "set_and_notify st path processedValue =
     (case setNestedValue (state st) path processedValue of
        Returns tree \<Rightarrow>
          (let st' = st\<lparr>state := tree\<rparr>
           in (map Subscriber_called (notifySubscribers st' path processedValue), Returns st'))
      | Throws e \<Rightarrow> ([], Throws e)
      | Beyond \<Rightarrow> ([], Beyond))"

text \<open>
  \<open>setValue\<close>: the calls of user code it makes, and the store it leaves when it returns.
\<close>

definition setValue :: "'cb BindingStore \<Rightarrow> string \<Rightarrow> jsval \<Rightarrow> ('cb, 'cb BindingStore) run" where
  "setValue st path v =
     (let config = configs st path in
      then_run
        (case opt_transform config of
           Some t \<Rightarrow> call_transform t v
         | None \<Rightarrow> ([], Returns v))
        (\<lambda>processedValue.
           case opt_validate config of
             Some validator \<Rightarrow>
               then_run (call_validator validator processedValue)
                 (\<lambda>result.
                    if result \<noteq> JBool True
                    then set_and_notify st path processedValue
                    else set_and_notify st path processedValue)
           | None \<Rightarrow> set_and_notify st path processedValue))"

text \<open>
  \<open>Set.prototype.add\<close> keeps a member where it is and appends a new one;
  \<open>Set.prototype.delete\<close> removes the member.
\<close>

definition set_add :: "'a list \<Rightarrow> 'a \<Rightarrow> 'a list" where
  "set_add members x = (if x \<in> set members then members else members @ [x])"

definition set_delete :: "'a list \<Rightarrow> 'a \<Rightarrow> 'a list" where
  "set_delete members x = removeAll x members"

text \<open>
  The closure that \<open>subscribe\<close> returns captures the \<open>Set\<close> object \<open>pathSubscribers\<close>,
  the path and the callback.
\<close>

record 'cb unsubscriber =
  captured_set :: nat
  captured_path :: string
  captured_callback :: 'cb

definition subscribe :: "'cb BindingStore \<Rightarrow> string \<Rightarrow> 'cb \<Rightarrow> 'cb BindingStore \<times> 'cb unsubscriber" where
  "subscribe st path callback =
     (let (st1, pathSubscribers) =
            (case subscribers st path of
               None \<Rightarrow>
                 (st\<lparr>subscribers := (subscribers st)(path \<mapsto> next_ref st),
                     subscriber_sets := (subscriber_sets st)(next_ref st := []),
                     next_ref := Suc (next_ref st)\<rparr>,
                  next_ref st)
             | Some r \<Rightarrow> (st, r))
      in (st1\<lparr>subscriber_sets := (subscriber_sets st1)
                 (pathSubscribers := set_add (subscriber_sets st1 pathSubscribers) callback)\<rparr>,
          \<lparr>captured_set = pathSubscribers, captured_path = path,
           captured_callback = callback\<rparr>))"

definition unsubscribe :: "'cb BindingStore \<Rightarrow> 'cb unsubscriber \<Rightarrow> 'cb BindingStore" where
  "unsubscribe st u =
     (let pathSubscribers = captured_set u;
          members = set_delete (subscriber_sets st pathSubscribers) (captured_callback u);
          st1 = st\<lparr>subscriber_sets := (subscriber_sets st)(pathSubscribers := members)\<rparr>
      in if members = []
         then st1\<lparr>subscribers := (subscribers st1)(captured_path u := None)\<rparr>
         else st1)"

text \<open>
  \<open>batch(updates)\<close>. The callback \<open>updates\<close> is any code acting on the store: it leaves a
  store, the calls of user code it caused, and the way it ended.
\<close>

type_synonym 'cb store_action =
  "'cb BindingStore \<Rightarrow> 'cb BindingStore \<times> 'cb effect list \<times> unit result"

definition batch :: "'cb BindingStore \<Rightarrow> 'cb store_action \<Rightarrow>
    'cb BindingStore \<times> 'cb effect list \<times> unit result" where
  "batch st updates = updates st"

text \<open>
  A callback body that performs the given writes in order, \<open>store.setValue(p, v)\<close> for
  each: the first write that does not return ends it, and what was written before
  stays written.
\<close>

fun perform_writes :: "(string \<times> jsval) list \<Rightarrow> 'cb store_action" where
  "perform_writes [] st = (st, [], Returns ())"
| "perform_writes ((p, v) # ws) st =
     (case setValue st p v of
        (calls1, Returns st1) \<Rightarrow>
          (case perform_writes ws st1 of
             (st2, calls2, r) \<Rightarrow> (st2, calls1 @ calls2, r))
      | (calls1, Throws e) \<Rightarrow> (st, calls1, Throws e)
      | (calls1, Beyond) \<Rightarrow> (st, calls1, Beyond))"

section \<open>Bindings\<close>

text \<open>
  The object returned by \<open>bind\<close> closes over the store, \<open>path\<close> and \<open>config\<close>. Its getters
  and methods take the store's current state.
\<close>

record Binding =
  bpath :: string
  bconfig :: BindingConfig

definition bind :: "'cb BindingStore \<Rightarrow> string \<Rightarrow> BindingConfig \<Rightarrow> 'cb BindingStore \<times> Binding" where
  "bind st path config =
     (st\<lparr>configs := (configs st)(path \<mapsto> config)\<rparr>, \<lparr>bpath = path, bconfig = config\<rparr>)"

definition binding_value :: "'cb BindingStore \<Rightarrow> Binding \<Rightarrow> jsval result" where
  "binding_value st b = getValue st (bpath b)"

text \<open>
  The \<open>isValid\<close> and \<open>error\<close> getters: the value is read first, then the validator of the
  binding's own config, if there is one, is called on it.
\<close>

definition isValid :: "'cb BindingStore \<Rightarrow> Binding \<Rightarrow> ('cb, bool) run" where
  "isValid st b =
     then_run ([], getValue st (bpath b))
       (\<lambda>v. case validate (bconfig b) of
               None \<Rightarrow> ([], Returns True)
             | Some validator \<Rightarrow>
                 then_run (call_validator validator v)
                   (\<lambda>result. ([], Returns (result = JBool True))))"

definition error :: "'cb BindingStore \<Rightarrow> Binding \<Rightarrow> ('cb, jsval) run" where
  "error st b =
     then_run ([], getValue st (bpath b))
       (\<lambda>v. case validate (bconfig b) of
               None \<Rightarrow> ([], Returns JUndefined)
             | Some validator \<Rightarrow>
                 then_run (call_validator validator v)
                   (\<lambda>result. ([], Returns (case result of JStr s \<Rightarrow> JStr s | _ \<Rightarrow> JUndefined))))"

definition binding_setValue :: "'cb BindingStore \<Rightarrow> Binding \<Rightarrow> jsval \<Rightarrow> ('cb, 'cb BindingStore) run" where
  "binding_setValue st b v = setValue st (bpath b) v"

definition binding_subscribe ::
  "'cb BindingStore \<Rightarrow> Binding \<Rightarrow> 'cb \<Rightarrow> 'cb BindingStore \<times> 'cb unsubscriber" where
  "binding_subscribe st b callback = subscribe st (bpath b) callback"

definition binding_transform ::
  "'cb BindingStore \<Rightarrow> Binding \<Rightarrow> (jsval \<Rightarrow> js_error + jsval) \<Rightarrow> 'cb BindingStore \<times> Binding" where
  "binding_transform st b transformer =
     (let transformedPath = bpath b @ ''_transformed'';
          transformedConfig =
            \<lparr>transform = Some (\<lambda>val. transformer val),
             validate = None,
             debounce = debounce (bconfig b),
             immediate = immediate (bconfig b),
             validationTiming = validationTiming (bconfig b)\<rparr>
      in bind st transformedPath transformedConfig)"

section \<open>Notions used to state the properties\<close>

text \<open>
  The value that \<open>setValue\<close> commits: \<open>processedValue\<close> after the optional transform.
\<close>

definition processed_value :: "'cb BindingStore \<Rightarrow> string \<Rightarrow> jsval \<Rightarrow> js_error + jsval" where
  "processed_value st path v =
     (case opt_transform (configs st path) of Some t \<Rightarrow> t v | None \<Rightarrow> Inr v)"


text \<open>The calls of one kind among the calls of a run.\<close>

fun transform_calls :: "'cb effect list \<Rightarrow> jsval list" where
  "transform_calls [] = []"
| "transform_calls (Transform_called v # es) = v # transform_calls es"
| "transform_calls (e # es) = transform_calls es"

fun validator_calls :: "'cb effect list \<Rightarrow> jsval list" where
  "validator_calls [] = []"
| "validator_calls (Validator_called v # es) = v # validator_calls es"
| "validator_calls (e # es) = validator_calls es"

fun subscriber_calls :: "'cb effect list \<Rightarrow> 'cb invocation list" where
  "subscriber_calls [] = []"
| "subscriber_calls (Subscriber_called i # es) = i # subscriber_calls es"
| "subscriber_calls (e # es) = subscriber_calls es"


text \<open>
  The derived transform as the specification words it: \<open>f\<close> composed with the parent
  config's transform, \<open>f(parentTransform(v))\<close>.
\<close>

definition spec_composed ::
  "(jsval \<Rightarrow> js_error + jsval) \<Rightarrow> (jsval \<Rightarrow> js_error + jsval) option \<Rightarrow> jsval \<Rightarrow> js_error + jsval" where
  "spec_composed f parentTransform v =
     (case parentTransform of
        None \<Rightarrow> f v
      | Some t \<Rightarrow> (case t v of Inl e \<Rightarrow> Inl e | Inr u \<Rightarrow> f u))"

text \<open>
  Every \<open>Set\<close> object holds each member once. This is what \<open>Set\<close> guarantees; the list
  model has to say it.
\<close>

definition sets_distinct :: "'cb BindingStore \<Rightarrow> bool" where
  "sets_distinct st = (\<forall>r. distinct (subscriber_sets st r))"


text \<open>How often the calls of a run invoke callback \<open>S\<close> for path \<open>P\<close>.\<close>

definition notified :: "'cb \<Rightarrow> string \<Rightarrow> 'cb effect list \<Rightarrow> nat" where
  "notified S P calls =
     length (filter (\<lambda>c. callee c = S \<and> arg_path c = P) (subscriber_calls calls))"

text \<open>The stores a program can hold: a new one, and what the operations make of one.\<close>

inductive reachable :: "'cb BindingStore \<Rightarrow> bool" where
  created: "reachable (createBindingStore init)"
| bound: "reachable st \<Longrightarrow> reachable (fst (bind st P c))"
| subscribed: "reachable st \<Longrightarrow> reachable (fst (subscribe st P S))"
| unsubscribed: "reachable st \<Longrightarrow> reachable (unsubscribe st u)"
| written: "reachable st \<Longrightarrow> setValue st P V = (calls, Returns st') \<Longrightarrow> reachable st'"

section \<open>The input adapter of \<open>useBind\<close>\<close>

datatype platform = Desktop | Android | IOS | Other

record InputContext =
  isComposing :: bool
  lastValue :: string
  selectionStart :: "nat option"
  selectionEnd :: "nat option"
  platform :: platform
  touched :: bool
  submitAttempted :: bool

text \<open>
  \<open>event.target\<close>: an \<open>HTMLInputElement\<close>, \<open>HTMLTextAreaElement\<close> or \<open>HTMLSelectElement\<close>
  with the properties the handlers read. \<open>'selectionStart' in target\<close> holds for the
  first two and not for a select element.
\<close>

datatype element = InputElement | TextAreaElement | SelectElement

record event_target =
  target_element :: element
  target_type :: string
  target_value :: string
  target_checked :: bool
  target_selectionStart :: "nat option"
  target_selectionEnd :: "nat option"

definition has_selectionStart :: "event_target \<Rightarrow> bool" where
  "has_selectionStart target = (target_element target \<noteq> SelectElement)"

text \<open>
  The context that \<open>useRef\<close> holds from the first render on; \<open>initialText\<close> is
  \<open>String(value || '')\<close> and \<open>detected\<close> the result of \<open>detectPlatform()\<close>.
\<close>

definition initial_context :: "string \<Rightarrow> platform \<Rightarrow> InputContext" where
  "initial_context initialText detected =
     \<lparr>isComposing = False, lastValue = initialText, selectionStart = None,
      selectionEnd = None, platform = detected, touched = False, submitAttempted = False\<rparr>"

definition shouldIgnoreComposition :: "InputContext \<Rightarrow> event_target \<Rightarrow> bool" where
  "shouldIgnoreComposition context target =
     (if \<not> has_selectionStart target then False
      else if platform context = Android
        then isComposing context \<and> target_value target = lastValue context
      else if platform context = IOS then False
      else isComposing context)"

text \<open>\<open>isNaN(numValue) ? 0 : numValue\<close> and \<open>parseFloat(...) || 0\<close>\<close>

definition nan_to_zero :: "jsnum \<Rightarrow> jsnum" where
  "nan_to_zero n = (if n = NaN then Fin 0 else n)"

definition or_zero :: "jsnum \<Rightarrow> jsnum" where
  "or_zero n = (if n = NaN \<or> n = NegZero \<or> n = Fin 0 then Fin 0 else n)"

text \<open>
  Each handler returns the context it leaves and the arguments of the
  \<open>binding.setValue\<close> calls it makes, in order. \<open>parseFloat\<close> is the engine's function;
  \<open>bindingValue\<close> is \<open>binding.value\<close> at the time of the event.
\<close>

definition handleChange ::
  "(string \<Rightarrow> jsnum) \<Rightarrow> jsval \<Rightarrow> InputContext \<Rightarrow> event_target \<Rightarrow> InputContext \<times> jsval list" where
  "handleChange parseFloat bindingValue context0 target =
     (let context = (if \<not> touched context0 then context0\<lparr>touched := True\<rparr> else context0) in
      if shouldIgnoreComposition context target then (context, [])
      else
        (let newValue =
               (if target_type target = ''checkbox'' then JBool (target_checked target)
                else if target_type target = ''radio''
                  then (if target_checked target then JStr (target_value target) else bindingValue)
                else if target_type target = ''number''
                  then JNum (nan_to_zero (parseFloat (target_value target)))
                else JStr (target_value target));
             context' =
               (if has_selectionStart target
                then context\<lparr>selectionStart := target_selectionStart target,
                             selectionEnd := target_selectionEnd target,
                             lastValue := target_value target\<rparr>
                else context)
         in (context', [newValue])))"

definition handleCompositionStart :: "InputContext \<Rightarrow> event_target \<Rightarrow> InputContext \<times> jsval list" where
  "handleCompositionStart context target =
     (context\<lparr>isComposing := True, lastValue := target_value target\<rparr>, [])"

definition handleCompositionEnd ::
  "(string \<Rightarrow> jsnum) \<Rightarrow> InputContext \<Rightarrow> event_target \<Rightarrow> InputContext \<times> jsval list" where
  "handleCompositionEnd parseFloat context target =
     (let finalValue =
            (if target_type target = ''number''
             then JNum (or_zero (parseFloat (target_value target)))
             else JStr (target_value target))
      in (context\<lparr>isComposing := False, lastValue := target_value target\<rparr>, [finalValue]))"

definition handleInput ::
  "(string \<Rightarrow> jsnum) \<Rightarrow> InputContext \<Rightarrow> event_target \<Rightarrow> InputContext \<times> jsval list" where
  "handleInput parseFloat context0 target =
     (let context = (if \<not> touched context0 then context0\<lparr>touched := True\<rparr> else context0) in
      if \<not> isComposing context then
        (let newValue =
               (if target_type target = ''number''
                then JNum (or_zero (parseFloat (target_value target)))
                else JStr (target_value target))
         in if newValue \<noteq> JStr (lastValue context)
            then (context\<lparr>lastValue := target_value target\<rparr>, [newValue])
            else (context, []))
      else (context, []))"

definition handleFocus :: "InputContext \<Rightarrow> InputContext \<times> jsval list" where
  "handleFocus context = ((if \<not> touched context then context\<lparr>touched := True\<rparr> else context), [])"

definition handleBlur :: "InputContext \<Rightarrow> InputContext \<times> jsval list" where
  "handleBlur context = (context\<lparr>touched := True\<rparr>, [])"

definition markSubmitAttempted :: "InputContext \<Rightarrow> InputContext \<times> jsval list" where
  "markSubmitAttempted context = (context\<lparr>submitAttempted := True\<rparr>, [])"

text \<open>The events an adapter receives, and the handler each one runs.\<close>

datatype input_event =
    Change event_target
  | Input event_target
  | CompositionStart event_target
  | CompositionEnd event_target
  | Focus
  | Blur
  | MarkSubmitAttempted

fun dispatch ::
  "(string \<Rightarrow> jsnum) \<Rightarrow> jsval \<Rightarrow> InputContext \<Rightarrow> input_event \<Rightarrow> InputContext \<times> jsval list" where
  "dispatch parseFloat bindingValue context (Change target) =
     handleChange parseFloat bindingValue context target"
| "dispatch parseFloat bindingValue context (Input target) =
     handleInput parseFloat context target"
| "dispatch parseFloat bindingValue context (CompositionStart target) =
     handleCompositionStart context target"
| "dispatch parseFloat bindingValue context (CompositionEnd target) =
     handleCompositionEnd parseFloat context target"
| "dispatch parseFloat bindingValue context Focus = handleFocus context"
| "dispatch parseFloat bindingValue context Blur = handleBlur context"
| "dispatch parseFloat bindingValue context MarkSubmitAttempted = markSubmitAttempted context"

text \<open>
  The life of an adapter: events in order, each with the value bound at that moment.
  The result is the final context.
\<close>

fun run_events :: "(string \<Rightarrow> jsnum) \<Rightarrow> InputContext \<Rightarrow> (jsval \<times> input_event) list \<Rightarrow> InputContext" where
  "run_events parseFloat context [] = context"
| "run_events parseFloat context ((bindingValue, ev) # rest) =
     run_events parseFloat (fst (dispatch parseFloat bindingValue context ev)) rest"

text \<open>
  The suppression rule as the specification words it: desktop always, Android when the
  raw text equals the last-seen value, iOS and unclassified platforms never.
\<close>

definition spec_suppressed :: "platform \<Rightarrow> string \<Rightarrow> string \<Rightarrow> bool" where
  "spec_suppressed p rawText lastSeen =
     (case p of
        Desktop \<Rightarrow> True
      | Android \<Rightarrow> rawText = lastSeen
      | IOS \<Rightarrow> False
      | Other \<Rightarrow> False)"

section \<open>Example data\<close>

text \<open>A transform that is not idempotent, a validator that always fails, one that throws.\<close>

definition exclaim :: "jsval \<Rightarrow> js_error + jsval" where
  "exclaim v = Inr (case v of JStr s \<Rightarrow> JStr (s @ ''!'') | _ \<Rightarrow> v)"

definition question :: "jsval \<Rightarrow> js_error + jsval" where
  "question v = Inr (case v of JStr s \<Rightarrow> JStr (s @ ''?'') | _ \<Rightarrow> v)"

definition always_invalid :: "jsval \<Rightarrow> js_error + jsval" where
  "always_invalid v = Inr (JStr ''This field is required'')"

definition throwing_validator :: "jsval \<Rightarrow> js_error + jsval" where
  "throwing_validator v = Inl (UserThrow (JStr ''boom''))"

definition plain_config :: BindingConfig where
  "plain_config =
     \<lparr>transform = None, validate = None, debounce = None, immediate = None,
      validationTiming = None\<rparr>"

definition text_input :: "string \<Rightarrow> event_target" where
  "text_input txt =
     \<lparr>target_element = InputElement, target_type = ''text'', target_value = txt,
      target_checked = False, target_selectionStart = Some (length txt),
      target_selectionEnd = Some (length txt)\<rparr>"

definition number_input :: "string \<Rightarrow> event_target" where
  "number_input txt =
     \<lparr>target_element = InputElement, target_type = ''number'', target_value = txt,
      target_checked = False, target_selectionStart = None, target_selectionEnd = None\<rparr>"

definition select_box :: "string \<Rightarrow> event_target" where
  "select_box chosen =
     \<lparr>target_element = SelectElement, target_type = ''select-one'', target_value = chosen,
      target_checked = False, target_selectionStart = None, target_selectionEnd = None\<rparr>"

text \<open>
  The engine's \<open>parseFloat\<close> on the texts of the examples: \<open>'42'\<close> and \<open>'0'\<close>; \<open>'4x'\<close>,
  where the numeric prefix counts; and \<open>'abc'\<close> and the empty text, which have no numeric
  prefix. The examples apply it to no other text.
\<close>

definition parse_example :: "string \<Rightarrow> jsnum" where
  "parse_example txt =
     (if txt = ''42'' then Fin 42
      else if txt = ''4x'' then Fin 4
      else if txt = ''0'' then Fin 0
      else NaN)"

text \<open>A store with a nested initial state and a transform bound at \<open>user.name\<close>.\<close>

definition profile_store :: "nat BindingStore" where
  "profile_store =
     fst (bind (createBindingStore [(''user'', JObj [(''name'', JStr ''ann'')])])
               ''user.name'' (plain_config\<lparr>transform := Some exclaim\<rparr>))"

text \<open>
  A store with a failing validator and one subscriber at \<open>email\<close>, and the binding
  that \<open>bind\<close> returned for it; a store whose validator throws; a binding with a
  transform, and the binding derived from it.
\<close>

definition email_store :: "nat BindingStore" where
  "email_store =
     fst (subscribe
            (fst (bind (createBindingStore []) ''email''
                    (plain_config\<lparr>validate := Some always_invalid\<rparr>)))
            ''email'' 7)"

definition email_binding :: Binding where
  "email_binding =
     snd (bind (createBindingStore [] :: nat BindingStore) ''email''
            (plain_config\<lparr>validate := Some always_invalid\<rparr>))"

definition throwing_store :: "nat BindingStore" where
  "throwing_store =
     fst (bind (createBindingStore []) ''email''
            (plain_config\<lparr>validate := Some throwing_validator\<rparr>))"

definition name_binding :: "nat BindingStore \<times> Binding" where
  "name_binding = bind (createBindingStore []) ''name'' (plain_config\<lparr>transform := Some exclaim\<rparr>)"

definition derived_binding :: "nat BindingStore \<times> Binding" where
  "derived_binding = binding_transform (fst name_binding) (snd name_binding) question"

text \<open>
  A store with a transform and subscriber 1 at \<open>title\<close>; subscriber 2 joining; the store
  after \<open>setValue('title', 'hi')\<close>; two writes for a batch.
\<close>

definition inbox_store :: "nat BindingStore" where
  "inbox_store =
     fst (subscribe (fst (bind (createBindingStore []) ''title''
                            (plain_config\<lparr>transform := Some exclaim\<rparr>)))
            ''title'' 1)"

definition inbox_subscribed :: "nat BindingStore \<times> nat unsubscriber" where
  "inbox_subscribed = subscribe inbox_store ''title'' 2"

definition inbox_written :: "nat BindingStore" where
  "inbox_written = (fst inbox_subscribed)\<lparr>state := JObj [(''title'', JStr ''hi!'')]\<rparr>"

definition two_writes :: "(string \<times> jsval) list" where
  "two_writes = [(''title'', JStr ''a''), (''title'', JStr ''b'')]"

text \<open>
  Stores for the path \<open>__proto__\<close>: an empty one; one with a failing validator and
  subscriber 7 at that path; one with subscriber 3 at that path.
\<close>

definition empty_store :: "nat BindingStore" where
  "empty_store = createBindingStore []"

definition proto_checked_store :: "nat BindingStore" where
  "proto_checked_store =
     fst (subscribe
            (fst (bind (createBindingStore []) ''__proto__''
                    (plain_config\<lparr>validate := Some always_invalid\<rparr>)))
            ''__proto__'' 7)"

definition proto_watched :: "nat BindingStore \<times> nat unsubscriber" where
  "proto_watched = subscribe (createBindingStore []) ''__proto__'' 3"

text \<open>An adapter in the middle of a composition that started on the text \<open>seen\<close>.\<close>

definition composing_on :: "platform \<Rightarrow> string \<Rightarrow> InputContext" where
  "composing_on p seen = fst (handleCompositionStart (initial_context [] p) (text_input seen))"

text \<open>A sequence of events that runs every handler.\<close>

definition busy_session :: "(jsval \<times> input_event) list" where
  "busy_session =
     [(JStr [], Change (text_input ''a'')),
      (JStr ''a'', CompositionStart (text_input ''a'')),
      (JStr ''a'', Input (text_input ''ab'')),
      (JStr ''a'', CompositionEnd (text_input ''ab'')),
      (JStr ''ab'', Focus),
      (JStr ''ab'', Change (select_box ''x'')),
      (JStr ''x'', Blur),
      (JStr ''x'', MarkSubmitAttempted),
      (JStr ''x'', Input (text_input ''xy''))]"

lemmas example_defs =
  email_store_def throwing_store_def name_binding_def derived_binding_def profile_store_def
  inbox_store_def inbox_subscribed_def inbox_written_def
  empty_store_def proto_checked_store_def proto_watched_def email_binding_def
  bind_def subscribe_def createBindingStore_def plain_config_def binding_transform_def
  exclaim_def question_def always_invalid_def throwing_validator_def

lemmas store_defs =
  setValue_def set_and_notify_def setNestedValue_def notifySubscribers_def getValue_def
  getNestedValue_def assign_prop_def is_object_or_null_def object_prototype_keys_def
  then_run_def call_transform_def call_validator_def
  opt_transform_def opt_validate_def processed_value_def set_add_def Let_def

section \<open>Path resolution: a write can be read back\<close>

lemma map_result_Returns: "map_result f r = Returns y \<longleftrightarrow> (\<exists>x. r = Returns x \<and> y = f x)"
  by (cases r) auto

lemma split_dot_nonempty: "split_dot p \<noteq> []"
  by (induction p) (auto split: list.splits)

lemma split_dot_single: "CHR ''.'' \<notin> set p \<Longrightarrow> split_dot p = [p]"
  by (induction p) (auto split: list.splits)

lemma split_dot_append:
  "CHR ''.'' \<notin> set s \<Longrightarrow>
     split_dot (p @ s) = butlast (split_dot p) @ [last (split_dot p) @ s]"
proof (induction p)
  case Nil
  then show ?case by (simp add: split_dot_single)
next
  case (Cons c p)
  then show ?case
    using split_dot_nonempty [of p] split_dot_nonempty [of "p @ s"]
    by (auto split: list.splits simp: butlast_append)
qed

lemma last_split_dot_append:
  "CHR ''.'' \<notin> set s \<Longrightarrow> last (split_dot (p @ s)) = last (split_dot p) @ s"
  by (simp add: split_dot_append)

text \<open>The last key of a derived path ends in \<open>_transformed\<close>; it is never \<open>__proto__\<close>.\<close>

lemma derived_last_key: "last (split_dot (p @ ''_transformed'')) \<noteq> ''__proto__''"
proof
  assume "last (split_dot (p @ ''_transformed'')) = ''__proto__''"
  then have "length (last (split_dot p) @ ''_transformed'') = length ''__proto__''"
    by (simp add: last_split_dot_append)
  then show False by simp
qed

lemma assign_prop_read_back:
  "assign_prop target lastKey v = Returns target' \<Longrightarrow> lastKey \<noteq> ''__proto__'' \<Longrightarrow>
     js_get target' lastKey = Returns v"
  by (auto simp: assign_prop_def update_conv' split: jsval.splits if_splits)

text \<open>
  Induction over the leading keys: what the walk returns holds the value under the
  keys it walked, unless the last key is \<open>__proto__\<close>.
\<close>

lemma assign_at_read_back:
  "assign_at current keys lastKey v = Returns current' \<Longrightarrow> lastKey \<noteq> ''__proto__'' \<Longrightarrow>
     read_keys current' (keys @ [lastKey]) = Returns v"
proof (induction keys arbitrary: current current')
  case Nil
  then show ?case by (simp add: assign_prop_read_back)
next
  case (Cons key keys)
  from Cons.prems(1) obtain props where cur: "current = JObj props"
    by (cases current) auto
  show ?case
  proof (cases "map_of props key")
    case None
    with Cons.prems(1) cur obtain child'
      where sub: "assign_at (JObj []) keys lastKey v = Returns child'"
        and res: "current' = JObj (AList.update key child' props)"
      by (auto simp: map_result_Returns split: if_splits)
    from Cons.IH [OF sub Cons.prems(2)] res show ?thesis
      by (simp add: update_conv')
  next
    case (Some child)
    with Cons.prems(1) cur obtain child'
      where sub: "assign_at child keys lastKey v = Returns child'"
        and res: "current' = JObj (AList.update key child' props)"
      by (auto simp: map_result_Returns)
    from Cons.IH [OF sub Cons.prems(2)] res show ?thesis
      by (simp add: update_conv')
  qed
qed

lemma setNestedValue_read_back:
  assumes "setNestedValue obj path v = Returns obj'"
      and "last (split_dot path) \<noteq> ''__proto__''"
  shows "getNestedValue obj' path = Returns v"
proof -
  have "butlast (split_dot path) @ [last (split_dot path)] = split_dot path"
    by (simp add: split_dot_nonempty)
  with assms assign_at_read_back [of obj "butlast (split_dot path)" "last (split_dot path)" v obj']
  show ?thesis by (simp add: setNestedValue_def getNestedValue_def Let_def)
qed

lemma setNestedValue_single_key:
  "CHR ''.'' \<notin> set path \<Longrightarrow> path \<noteq> ''__proto__'' \<Longrightarrow>
     setNestedValue (JObj props) path v = Returns (JObj (AList.update path v props))"
  by (simp add: setNestedValue_def split_dot_single assign_prop_def)

section \<open>The calls of a run\<close>

lemma transform_calls_append [simp]:
  "transform_calls (xs @ ys) = transform_calls xs @ transform_calls ys"
  by (induction xs rule: transform_calls.induct) simp_all

lemma validator_calls_append [simp]:
  "validator_calls (xs @ ys) = validator_calls xs @ validator_calls ys"
  by (induction xs rule: validator_calls.induct) simp_all

lemma subscriber_calls_append [simp]:
  "subscriber_calls (xs @ ys) = subscriber_calls xs @ subscriber_calls ys"
  by (induction xs rule: subscriber_calls.induct) simp_all

lemma calls_of_notifications [simp]:
  "subscriber_calls (map Subscriber_called is) = is"
  "validator_calls (map Subscriber_called is) = []"
  "transform_calls (map Subscriber_called is) = []"
  by (induction "is") simp_all

section \<open>The write path of the store\<close>

lemma set_and_notify_Returns:
  "set_and_notify st P w = (es, Returns st') \<longleftrightarrow>
     (\<exists>tree. setNestedValue (state st) P w = Returns tree \<and> st' = st\<lparr>state := tree\<rparr>
        \<and> es = map Subscriber_called (notifySubscribers st' P w))"
  by (auto simp: set_and_notify_def Let_def split: result.splits)

lemma set_and_notify_calls [simp]:
  "validator_calls (fst (set_and_notify st P w)) = []"
  "transform_calls (fst (set_and_notify st P w)) = []"
  by (simp_all add: set_and_notify_def Let_def split: result.splits)


text \<open>
  \<open>setValue\<close> after the transform has returned \<open>w\<close>: the calls made so far, then the
  validator, then the statement pair.
\<close>

lemma setValue_processed:
  assumes "processed_value st P V = Inr w"
  shows "setValue st P V =
           then_run (case opt_transform (configs st P) of
                       None \<Rightarrow> ([], Returns w) | Some t \<Rightarrow> ([Transform_called V], Returns w))
             (\<lambda>w. case opt_validate (configs st P) of
                     None \<Rightarrow> set_and_notify st P w
                   | Some validator \<Rightarrow>
                       then_run (call_validator validator w) (\<lambda>result. set_and_notify st P w))"
  using assms
  by (auto simp: setValue_def processed_value_def call_transform_def then_run_def Let_def
           split: option.splits sum.splits)

lemma setValue_transform_threw:
  assumes "processed_value st P V = Inl e"
  shows "setValue st P V = ([Transform_called V], Throws e)"
  using assms
  by (auto simp: setValue_def processed_value_def call_transform_def then_run_def Let_def
           split: option.splits sum.splits)

text \<open>Everything a returning \<open>setValue\<close> has done.\<close>

lemma setValue_Returns:
  assumes "setValue st P V = (es, Returns st')"
  shows "\<exists>w tree. processed_value st P V = Inr w
           \<and> setNestedValue (state st) P w = Returns tree
           \<and> st' = st\<lparr>state := tree\<rparr>
           \<and> subscriber_calls es = notifySubscribers st' P w
           \<and> transform_calls es =
               (case opt_transform (configs st P) of None \<Rightarrow> [] | Some t \<Rightarrow> [V])
           \<and> validator_calls es =
               (case opt_validate (configs st P) of None \<Rightarrow> [] | Some validator \<Rightarrow> [w])"
proof (cases "processed_value st P V")
  case (Inl e)
  from setValue_transform_threw [OF Inl] assms show ?thesis by simp
next
  case (Inr w)
  from assms show ?thesis
    unfolding setValue_processed [OF Inr]
    by (auto simp: Inr then_run_def call_validator_def set_and_notify_Returns
             split: option.splits sum.splits result.splits prod.splits)
qed

lemma setValue_keeps:
  assumes "setValue st P V = (es, Returns st')"
  shows "subscribers st' = subscribers st \<and> subscriber_sets st' = subscriber_sets st
     \<and> next_ref st' = next_ref st \<and> configs st' = configs st"
  using setValue_Returns [OF assms] by auto

lemma setValue_read_back:
  assumes "setValue st P V = (es, Returns st')"
      and "last (split_dot P) \<noteq> ''__proto__''"
  shows "\<exists>w. processed_value st P V = Inr w \<and> getValue st' P = Returns w"
proof -
  from setValue_Returns [OF assms(1)] obtain w tree
    where "processed_value st P V = Inr w"
      and "setNestedValue (state st) P w = Returns tree" and "st' = st\<lparr>state := tree\<rparr>"
    by blast
  with setNestedValue_read_back [OF _ assms(2)] show ?thesis
    by (auto simp: getValue_def)
qed

text \<open>
  The calls above are not idle: on a path without a dot other than \<open>__proto__\<close>, in a
  store whose state is a plain object, \<open>setValue\<close> returns whenever the transform and
  the validator return.
\<close>

lemma setValue_returns:
  assumes "state st = JObj props"
      and "CHR ''.'' \<notin> set P" and "P \<noteq> ''__proto__''"
      and "processed_value st P V = Inr w"
      and "case opt_validate (configs st P) of None \<Rightarrow> True | Some vd \<Rightarrow> \<not> isl (vd w)"
  shows "snd (setValue st P V) = Returns (st\<lparr>state := JObj (AList.update P w props)\<rparr>)"
  using assms
  unfolding setValue_processed [OF assms(4)]
  by (auto simp: then_run_def call_validator_def set_and_notify_def setNestedValue_single_key
        Let_def split: option.splits sum.splits)

section \<open>The subscriber sets\<close>

lemma sets_distinct_create: "sets_distinct (createBindingStore init)"
  by (simp add: sets_distinct_def createBindingStore_def)

lemma distinct_set_add: "distinct xs \<Longrightarrow> distinct (set_add xs x)"
  by (simp add: set_add_def)

lemma sets_distinct_subscribe:
  "sets_distinct st \<Longrightarrow> sets_distinct (fst (subscribe st P S))"
  by (auto simp: sets_distinct_def subscribe_def Let_def distinct_set_add split: option.splits)

lemma sets_distinct_unsubscribe:
  "sets_distinct st \<Longrightarrow> sets_distinct (unsubscribe st u)"
  by (auto simp: sets_distinct_def unsubscribe_def Let_def set_delete_def distinct_removeAll)

lemma sets_distinct_bind:
  "sets_distinct st \<Longrightarrow> sets_distinct (fst (bind st P c))"
  by (simp add: sets_distinct_def bind_def)

lemma sets_distinct_setValue:
  "sets_distinct st \<Longrightarrow> setValue st P V = (es, Returns st') \<Longrightarrow> sets_distinct st'"
  using setValue_keeps [of st P V es st'] by (simp add: sets_distinct_def)

text \<open>Rule induction over the operations: the sets of every reachable store are sets.\<close>

lemma reachable_sets_distinct: "reachable st \<Longrightarrow> sets_distinct st"
proof (induction rule: reachable.induct)
  case (created init)
  show ?case by (rule sets_distinct_create)
next
  case (bound st P c)
  then show ?case by (simp add: sets_distinct_bind)
next
  case (subscribed st P S)
  then show ?case by (simp add: sets_distinct_subscribe)
next
  case (unsubscribed st u)
  then show ?case by (simp add: sets_distinct_unsubscribe)
next
  case (written st P V calls st')
  then show ?case by (blast intro: sets_distinct_setValue)
qed

lemma filter_eq_singleton:
  "distinct xs \<Longrightarrow> x \<in> set xs \<Longrightarrow> filter (\<lambda>y. y = x) xs = [x]"
  by (induction xs) (auto simp: filter_empty_conv)




section \<open>Notifications of a sequence of writes\<close>

lemma notified_append: "notified S P (xs @ ys) = notified S P xs + notified S P ys"
  by (simp add: notified_def)

lemma count_notify:
  assumes "distinct (subscriber_sets st r)" "subscribers st P = Some r" "S \<in> set (subscriber_sets st r)"
  shows "length (filter (\<lambda>c. callee c = S \<and> arg_path c = P) (notifySubscribers st p w)) =
           (if p = P then 1 else 0)"
proof (cases "p = P")
  case True
  have "filter (\<lambda>c. callee c = S \<and> arg_path c = P)
          (map (\<lambda>cb. \<lparr>callee = cb, arg_value = w, arg_path = P, tree_at_call = state st\<rparr>)
             (subscriber_sets st r))
        = map (\<lambda>cb. \<lparr>callee = cb, arg_value = w, arg_path = P, tree_at_call = state st\<rparr>)
            (filter (\<lambda>cb. cb = S) (subscriber_sets st r))"
    by (simp add: filter_map comp_def)
  with True assms filter_eq_singleton [OF assms(1,3)] show ?thesis
    by (simp add: notifySubscribers_def)
next
  case False
  then show ?thesis
    by (auto simp: notifySubscribers_def filter_empty_conv split: option.splits)
qed

lemma notified_setValue:
  assumes "setValue st p v = (calls1, Returns st1)"
      and "sets_distinct st" "subscribers st P = Some r" "S \<in> set (subscriber_sets st r)"
  shows "notified S P calls1 = (if p = P then 1 else 0)"
proof -
  from setValue_Returns [OF assms(1)] obtain w
    where calls: "subscriber_calls calls1 = notifySubscribers st1 p w" by blast
  from setValue_keeps [OF assms(1)]
  have keep: "subscribers st1 = subscribers st" "subscriber_sets st1 = subscriber_sets st"
    by simp_all
  from assms(2) have "distinct (subscriber_sets st1 r)"
    by (simp add: keep sets_distinct_def)
  from count_notify [OF this, of P S p w] assms(3,4) keep calls show ?thesis
    by (simp add: notified_def)
qed

lemma notified_perform_writes:
  assumes "perform_writes ws st = (st', calls, Returns ())"
      and "sets_distinct st" "subscribers st P = Some r" "S \<in> set (subscriber_sets st r)"
  shows "notified S P calls = length (filter (\<lambda>w. fst w = P) ws)"
  using assms
proof (induction ws arbitrary: st calls)
  case Nil
  then show ?case by (simp add: notified_def)
next
  case (Cons a ws)
  obtain p v where a: "a = (p, v)" by (cases a)
  from Cons.prems(1) a obtain st1 calls1 calls2
    where sv: "setValue st p v = (calls1, Returns st1)"
      and rest: "perform_writes ws st1 = (st', calls2, Returns ())"
      and calls: "calls = calls1 @ calls2"
    by (auto split: result.splits prod.splits)
  from setValue_keeps [OF sv]
  have keep: "subscribers st1 = subscribers st" "subscriber_sets st1 = subscriber_sets st"
    by simp_all
  have d1: "sets_distinct st1"
    using Cons.prems(2) sv by (rule sets_distinct_setValue)
  have "notified S P calls2 = length (filter (\<lambda>w. fst w = P) ws)"
    using Cons.IH [OF rest d1] Cons.prems(3,4) keep by simp
  moreover have "notified S P calls1 = (if p = P then 1 else 0)"
    using notified_setValue [OF sv Cons.prems(2,3,4)] .
  ultimately show ?case
    by (simp add: calls notified_append a)
qed

section \<open>The adapter's flags, one event at a time\<close>

lemma dispatch_flags:
  "(touched c \<longrightarrow> touched (fst (dispatch pf bv c ev)))
   \<and> (submitAttempted c \<longrightarrow> submitAttempted (fst (dispatch pf bv c ev)))"
  by (cases ev)
     (auto simp: handleChange_def handleInput_def handleCompositionStart_def
        handleCompositionEnd_def handleFocus_def handleBlur_def markSubmitAttempted_def Let_def)

section \<open>Properties of the store\<close>







text \<open>
  C3, as the code has it. \<open>setValue\<close> invokes the validator configured for the path,
  exactly once, on the (possibly transformed) value, after the transform and before
  anything is written or any subscriber is called: a validator that throws makes
  \<open>setValue\<close> throw the same exception, with nothing committed and no subscriber called;
  after a validator that returns, the write and the notifications are those of the
  statement pair, whatever the result. The validator is invoked again, once, on the
  value read, each time the binding's \<open>isValid\<close> or \<open>error\<close> is read.
\<close>

theorem validator_evaluated_by_setValue:
  assumes "bpath b = P"
      and "configs st P = Some (bconfig b)"
      and "validate (bconfig b) = Some validator"
      and "processed_value st P V = Inr w"
  shows "validator_calls (fst (setValue st P V)) = [w]
       \<and> setValue st P V =
           (case validator w of
              Inl e \<Rightarrow>
                ((case transform (bconfig b) of None \<Rightarrow> [] | Some t \<Rightarrow> [Transform_called V])
                   @ [Validator_called w],
                 Throws e)
            | Inr result \<Rightarrow>
                ((case transform (bconfig b) of None \<Rightarrow> [] | Some t \<Rightarrow> [Transform_called V])
                   @ [Validator_called w] @ fst (set_and_notify st P w),
                 snd (set_and_notify st P w)))
       \<and> (case getValue st' P of
            Returns v \<Rightarrow>
              isValid st' b =
                ([Validator_called v],
                 case validator v of Inl e \<Rightarrow> Throws e | Inr r \<Rightarrow> Returns (r = JBool True))
              \<and> error st' b =
                ([Validator_called v],
                 case validator v of
                   Inl e \<Rightarrow> Throws e
                 | Inr r \<Rightarrow> Returns (case r of JStr s \<Rightarrow> JStr s | _ \<Rightarrow> JUndefined))
          | Throws e \<Rightarrow> True
          | Beyond \<Rightarrow> True)"
proof -
  have run: "setValue st P V =
      then_run (case transform (bconfig b) of
                  None \<Rightarrow> ([], Returns w) | Some t \<Rightarrow> ([Transform_called V], Returns w))
        (\<lambda>w. then_run (call_validator validator w) (\<lambda>result. set_and_notify st P w))"
    using assms(2,3) by (simp add: setValue_processed [OF assms(4)] opt_validate_def opt_transform_def)
  have once: "validator_calls (fst (setValue st P V)) = [w]"
    unfolding run
    by (auto simp: then_run_def call_validator_def set_and_notify_def Let_def
             split: option.splits sum.splits result.splits prod.splits)
  have order: "setValue st P V =
           (case validator w of
              Inl e \<Rightarrow>
                ((case transform (bconfig b) of None \<Rightarrow> [] | Some t \<Rightarrow> [Transform_called V])
                   @ [Validator_called w],
                 Throws e)
            | Inr result \<Rightarrow>
                ((case transform (bconfig b) of None \<Rightarrow> [] | Some t \<Rightarrow> [Transform_called V])
                   @ [Validator_called w] @ fst (set_and_notify st P w),
                 snd (set_and_notify st P w)))"
    unfolding run
    by (auto simp: then_run_def call_validator_def
             split: option.splits sum.splits result.splits prod.splits)
  have reads: "case getValue st' P of
            Returns v \<Rightarrow>
              isValid st' b =
                ([Validator_called v],
                 case validator v of Inl e \<Rightarrow> Throws e | Inr r \<Rightarrow> Returns (r = JBool True))
              \<and> error st' b =
                ([Validator_called v],
                 case validator v of
                   Inl e \<Rightarrow> Throws e
                 | Inr r \<Rightarrow> Returns (case r of JStr s \<Rightarrow> JStr s | _ \<Rightarrow> JUndefined))
          | Throws e \<Rightarrow> True
          | Beyond \<Rightarrow> True"
    using assms(1,3)
    by (auto simp: isValid_def error_def then_run_def call_validator_def
             split: result.splits sum.splits)
  from once order reads show ?thesis by blast
qed

text \<open>
  The binding that \<open>bind\<close> returned for \<open>email\<close>, with a validator that rejects
  everything: \<open>setValue('email', 'x')\<close> calls the validator once, on \<open>'x'\<close>; reading
  \<open>isValid\<close> afterwards calls it once more and gives \<open>false\<close>, reading \<open>error\<close> calls it
  once more and gives the message.
\<close>

theorem validator_evaluated_by_setValue_witness:
  "bpath email_binding = ''email''
   \<and> configs email_store ''email'' = Some (bconfig email_binding)
   \<and> validate (bconfig email_binding) = Some always_invalid
   \<and> processed_value email_store ''email'' (JStr ''x'') = Inr (JStr ''x'')
   \<and> validator_calls (fst (setValue email_store ''email'' (JStr ''x''))) = [JStr ''x'']
   \<and> getValue (email_store\<lparr>state := JObj [(''email'', JStr ''x'')]\<rparr>) ''email'' = Returns (JStr ''x'')
   \<and> isValid (email_store\<lparr>state := JObj [(''email'', JStr ''x'')]\<rparr>) email_binding =
       ([Validator_called (JStr ''x'')], Returns False)
   \<and> error (email_store\<lparr>state := JObj [(''email'', JStr ''x'')]\<rparr>) email_binding =
       ([Validator_called (JStr ''x'')], Returns (JStr ''This field is required''))"
proof -
  have b: "bpath email_binding = ''email''"
    by (simp add: example_defs)
  have c: "configs email_store ''email'' = Some (bconfig email_binding)"
    by (simp add: example_defs)
  have v: "validate (bconfig email_binding) = Some always_invalid"
    by (simp add: example_defs)
  have p: "processed_value email_store ''email'' (JStr ''x'') = Inr (JStr ''x'')"
    by (simp add: example_defs store_defs)
  have g: "getValue (email_store\<lparr>state := JObj [(''email'', JStr ''x'')]\<rparr>) ''email'' =
      Returns (JStr ''x'')"
    by (simp add: store_defs)
  have iv: "isValid (email_store\<lparr>state := JObj [(''email'', JStr ''x'')]\<rparr>) email_binding =
       ([Validator_called (JStr ''x'')], Returns False)"
    by (simp add: isValid_def example_defs store_defs)
  have er: "error (email_store\<lparr>state := JObj [(''email'', JStr ''x'')]\<rparr>) email_binding =
       ([Validator_called (JStr ''x'')], Returns (JStr ''This field is required''))"
    by (simp add: error_def example_defs store_defs)
  from validator_evaluated_by_setValue [OF b c v p, THEN conjunct1]
  have "validator_calls (fst (setValue email_store ''email'' (JStr ''x''))) = [JStr ''x'']" .
  with b c v p g iv er show ?thesis by blast
qed

text \<open>
  The statement that a throwing validator cannot make \<open>setValue\<close> throw fails: with a
  validator that throws \<open>'boom'\<close> configured at \<open>email\<close>, \<open>setValue('email', 'a@b.com')\<close>
  calls it and throws \<open>'boom'\<close>.
\<close>

theorem throwing_validator_counterexample:
  "opt_validate (configs throwing_store ''email'') = Some throwing_validator
   \<and> setValue throwing_store ''email'' (JStr ''a@b.com'') =
       ([Validator_called (JStr ''a@b.com'')], Throws (UserThrow (JStr ''boom'')))"
  by (simp add: example_defs store_defs)




section \<open>Properties of the input adapter\<close>

text \<open>
  C5, as the code has it. A raw change event arriving while composing makes no
  \<open>setValue\<close> call exactly in these cases, for a target with a text selection (an input
  or textarea element): on desktop-class and on unclassified (\<open>other\<close>) platforms always;
  on Android-class platforms when the raw text equals the last-seen value; on iOS-class
  platforms never. A change event from a select element always writes through. An
  event that is not suppressed makes one call.
\<close>

theorem composing_change_suppression:
  assumes "isComposing c"
  shows "(snd (handleChange pf bv c target) = []) =
           (has_selectionStart target \<and>
            (case platform c of
               Desktop \<Rightarrow> True
             | Other \<Rightarrow> True
             | Android \<Rightarrow> target_value target = lastValue c
             | IOS \<Rightarrow> False))
       \<and> length (snd (handleChange pf bv c target)) \<le> 1"
  using assms
  by (cases "platform c")
     (auto simp: handleChange_def shouldIgnoreComposition_def Let_def)

theorem composing_change_suppression_witness:
  "isComposing (composing_on Android ''ni'')
   \<and> snd (handleChange parse_example JUndefined (composing_on Android ''ni'') (text_input ''ni'')) = []
   \<and> snd (handleChange parse_example JUndefined (composing_on Android ''ni'') (text_input ''nih''))
       \<noteq> []"
proof -
  have c: "isComposing (composing_on Android ''ni'')"
    by (simp add: composing_on_def handleCompositionStart_def)
  have p: "platform (composing_on Android ''ni'') = Android"
    "lastValue (composing_on Android ''ni'') = ''ni''"
    by (simp_all add: composing_on_def handleCompositionStart_def initial_context_def text_input_def)
  from composing_change_suppression [OF c, of parse_example JUndefined "text_input ''ni''"]
       composing_change_suppression [OF c, of parse_example JUndefined "text_input ''nih''"]
       c p
  show ?thesis by (simp add: has_selectionStart_def text_input_def)
qed

text \<open>
  The rule as the specification words it fails on an unclassified platform: while
  composing, a change event with new text on a text input makes no \<open>setValue\<close> call,
  where the specification's rule says it is never suppressed.
\<close>

theorem other_platform_counterexample:
  "isComposing (composing_on Other ''ni'')
   \<and> snd (handleChange parse_example JUndefined (composing_on Other ''ni'') (text_input ''nih'')) = []
   \<and> \<not> spec_suppressed Other ''nih'' ''ni''"
  by (simp add: composing_on_def handleCompositionStart_def initial_context_def text_input_def
      handleChange_def shouldIgnoreComposition_def has_selectionStart_def spec_suppressed_def Let_def)

text \<open>
  C6. On every platform class and in every context, a \<open>compositionend\<close> event leaves the
  adapter not composing and makes exactly one \<open>setValue\<close> call, with the final text of
  the target, or, for a numeric field, with the parsed number, 0 taking the place of a
  failed parse (and of a zero).
\<close>

theorem compositionEnd_commits_final_text:
  "\<not> isComposing (fst (handleCompositionEnd pf c target))
   \<and> snd (handleCompositionEnd pf c target) =
       [if target_type target = ''number''
        then JNum (if pf (target_value target) = NaN \<or> pf (target_value target) = NegZero
                      \<or> pf (target_value target) = Fin 0
                   then Fin 0 else pf (target_value target))
        else JStr (target_value target)]"
  by (simp add: handleCompositionEnd_def or_zero_def Let_def)

text \<open>
  A text field ends on \<open>'nihon'\<close>; a numeric field ends on \<open>'42'\<close>, which parses, and on
  the empty text (what a numeric field holds when its content is not a number), which
  does not parse and gives 0.
\<close>

theorem compositionEnd_commits_final_text_witness:
  "snd (handleCompositionEnd parse_example (composing_on Desktop ''ni'') (text_input ''nihon'')) =
     [JStr ''nihon'']
   \<and> snd (handleCompositionEnd parse_example (composing_on Desktop ''4'') (number_input ''42'')) =
     [JNum (Fin 42)]
   \<and> snd (handleCompositionEnd parse_example (composing_on Desktop ''4'') (number_input [])) =
     [JNum (Fin 0)]
   \<and> \<not> isComposing (fst (handleCompositionEnd parse_example (composing_on Desktop ''ni'')
                            (text_input ''nihon'')))"
  using compositionEnd_commits_final_text [of parse_example "composing_on Desktop ''ni''" "text_input ''nihon''"]
        compositionEnd_commits_final_text [of parse_example "composing_on Desktop ''4''" "number_input ''42''"]
        compositionEnd_commits_final_text [of parse_example "composing_on Desktop ''4''" "number_input []"]
  by (simp add: text_input_def number_input_def parse_example_def)

section \<open>Derived bindings and batches\<close>

text \<open>
  C7, as the code has it. \<open>transform(f)\<close> on a binding at path \<open>P\<close> registers a config at
  the derived path \<open>P + "_transformed"\<close> and returns a binding for it; the config's
  transform is \<open>f\<close> alone, the parent config's transform is not part of it. A value \<open>v\<close>
  written through the derived binding is stored as \<open>f(v)\<close>, with one call of \<open>f\<close>.
\<close>

theorem derived_binding_applies_transformer_only:
  assumes "binding_transform st b f = (st1, b')"
      and "binding_setValue st1 b' v = (calls, Returns st2)"
  shows "bpath b' = bpath b @ ''_transformed''
       \<and> configs st1 (bpath b') = Some (bconfig b')
       \<and> transform (bconfig b') = Some f
       \<and> (case f v of Inl e \<Rightarrow> False | Inr w \<Rightarrow> getValue st2 (bpath b') = Returns w)
       \<and> transform_calls calls = [v]"
proof -
  from assms(1) have b': "bpath b' = bpath b @ ''_transformed''"
    and cfg: "configs st1 (bpath b') = Some (bconfig b')"
    and tr: "transform (bconfig b') = Some f"
    by (auto simp: binding_transform_def bind_def Let_def)
  have run: "setValue st1 (bpath b') v = (calls, Returns st2)"
    using assms(2) by (simp add: binding_setValue_def)
  have key: "last (split_dot (bpath b')) \<noteq> ''__proto__''"
    unfolding b' by (rule derived_last_key)
  from setValue_read_back [OF run key] obtain w
    where w: "processed_value st1 (bpath b') v = Inr w" and rb: "getValue st2 (bpath b') = Returns w"
    by blast
  from w cfg tr have "f v = Inr w" by (simp add: processed_value_def opt_transform_def)
  moreover from setValue_Returns [OF run] cfg tr have "transform_calls calls = [v]"
    by (auto simp: opt_transform_def)
  ultimately show ?thesis using b' cfg tr rb by simp
qed

theorem derived_binding_applies_transformer_only_witness:
  "binding_transform (fst name_binding) (snd name_binding) question = derived_binding
   \<and> binding_setValue (fst derived_binding) (snd derived_binding) (JStr ''a'') =
       ([Transform_called (JStr ''a'')],
        Returns ((fst derived_binding)\<lparr>state := JObj [(''name_transformed'', JStr ''a?'')]\<rparr>))
   \<and> bpath (snd derived_binding) = ''name_transformed''
   \<and> question (JStr ''a'') = Inr (JStr ''a?'')
   \<and> getValue ((fst derived_binding)\<lparr>state := JObj [(''name_transformed'', JStr ''a?'')]\<rparr>)
        ''name_transformed'' = Returns (JStr ''a?'')"
proof -
  have t: "binding_transform (fst name_binding) (snd name_binding) question =
      (fst derived_binding, snd derived_binding)"
    by (simp add: derived_binding_def)
  have run: "binding_setValue (fst derived_binding) (snd derived_binding) (JStr ''a'') =
       ([Transform_called (JStr ''a'')],
        Returns ((fst derived_binding)\<lparr>state := JObj [(''name_transformed'', JStr ''a?'')]\<rparr>))"
    by (simp add: example_defs store_defs binding_setValue_def)
  have pth: "bpath (snd name_binding) = ''name''"
    by (simp add: example_defs)
  have q: "question (JStr ''a'') = Inr (JStr ''a?'')"
    by (simp add: question_def)
  note th = derived_binding_applies_transformer_only [OF t run]
  from th pth have p': "bpath (snd derived_binding) = ''name_transformed''" by simp
  from th q p'
  have "getValue ((fst derived_binding)\<lparr>state := JObj [(''name_transformed'', JStr ''a?'')]\<rparr>)
        ''name_transformed'' = Returns (JStr ''a?'')"
    by simp
  with t run p' q show ?thesis by simp
qed

text \<open>
  The composition with the parent's transform fails: the parent binding at \<open>name\<close>
  appends \<open>!\<close>, the derived binding is made with a transformer that appends \<open>?\<close>; \<open>'a'\<close>
  written through the derived binding is stored as \<open>'a?'\<close>, where \<open>f(parentTransform(v))\<close>
  is \<open>'a!?'\<close>.
\<close>

theorem derived_binding_counterexample:
  "binding_setValue (fst derived_binding) (snd derived_binding) (JStr ''a'') =
     ([Transform_called (JStr ''a'')],
      Returns ((fst derived_binding)\<lparr>state := JObj [(''name_transformed'', JStr ''a?'')]\<rparr>))
   \<and> getValue ((fst derived_binding)\<lparr>state := JObj [(''name_transformed'', JStr ''a?'')]\<rparr>)
        (bpath (snd derived_binding)) = Returns (JStr ''a?'')
   \<and> spec_composed question (transform (bconfig (snd name_binding))) (JStr ''a'') =
        Inr (JStr ''a!?'')"
  by (simp add: example_defs store_defs binding_setValue_def spec_composed_def)

text \<open>
  C8. \<open>batch\<close> is a pass-through with no batching effect: \<open>batch(updates)\<close> leaves the
  store, the calls and the ending that \<open>updates()\<close> leaves. No notification is deferred
  or merged: when the callback performs a sequence of writes that all return, a
  subscriber of path \<open>P\<close> is invoked for \<open>P\<close> once per write to \<open>P\<close>.
\<close>

theorem batch_is_pass_through:
  "batch st updates = updates st
   \<and> (sets_distinct st \<and> subscribers st P = Some r \<and> S \<in> set (subscriber_sets st r)
        \<and> batch st (perform_writes ws) = (st', calls, Returns ())
      \<longrightarrow> notified S P calls = length (filter (\<lambda>w. fst w = P) ws))"
  using notified_perform_writes [of ws st st' calls P r S]
  by (simp add: batch_def)

text \<open>
  Two writes to \<open>title\<close> in one batch: subscriber 1 is called at each write, and sees the
  tree as that write left it.
\<close>

theorem batch_is_pass_through_witness:
  "sets_distinct inbox_store
   \<and> subscribers inbox_store ''title'' = Some 0
   \<and> 1 \<in> set (subscriber_sets inbox_store 0)
   \<and> batch inbox_store (perform_writes two_writes) =
     (inbox_store\<lparr>state := JObj [(''title'', JStr ''b!'')]\<rparr>,
      [Transform_called (JStr ''a''),
       Subscriber_called \<lparr>callee = 1, arg_value = JStr ''a!'', arg_path = ''title'',
                          tree_at_call = JObj [(''title'', JStr ''a!'')]\<rparr>,
       Transform_called (JStr ''b''),
       Subscriber_called \<lparr>callee = 1, arg_value = JStr ''b!'', arg_path = ''title'',
                          tree_at_call = JObj [(''title'', JStr ''b!'')]\<rparr>],
      Returns ())
   \<and> notified (1::nat) ''title''
       [Transform_called (JStr ''a''),
        Subscriber_called \<lparr>callee = 1, arg_value = JStr ''a!'', arg_path = ''title'',
                           tree_at_call = JObj [(''title'', JStr ''a!'')]\<rparr>,
        Transform_called (JStr ''b''),
        Subscriber_called \<lparr>callee = 1, arg_value = JStr ''b!'', arg_path = ''title'',
                           tree_at_call = JObj [(''title'', JStr ''b!'')]\<rparr>] = 2"
proof -
  have d: "sets_distinct inbox_store"
    by (simp add: sets_distinct_def example_defs store_defs)
  have s: "subscribers inbox_store ''title'' = Some 0"
    by (simp add: example_defs store_defs)
  have m: "1 \<in> set (subscriber_sets inbox_store 0)"
    by (simp add: example_defs store_defs)
  have run: "perform_writes two_writes inbox_store =
     (inbox_store\<lparr>state := JObj [(''title'', JStr ''b!'')]\<rparr>,
      [Transform_called (JStr ''a''),
       Subscriber_called \<lparr>callee = 1, arg_value = JStr ''a!'', arg_path = ''title'',
                          tree_at_call = JObj [(''title'', JStr ''a!'')]\<rparr>,
       Transform_called (JStr ''b''),
       Subscriber_called \<lparr>callee = 1, arg_value = JStr ''b!'', arg_path = ''title'',
                          tree_at_call = JObj [(''title'', JStr ''b!'')]\<rparr>],
      Returns ())"
    by (simp add: two_writes_def example_defs store_defs)
  note th = batch_is_pass_through [of inbox_store "perform_writes two_writes" "''title''" 0 1 two_writes
      "inbox_store\<lparr>state := JObj [(''title'', JStr ''b!'')]\<rparr>"
      "[Transform_called (JStr ''a''),
        Subscriber_called \<lparr>callee = 1, arg_value = JStr ''a!'', arg_path = ''title'',
                           tree_at_call = JObj [(''title'', JStr ''a!'')]\<rparr>,
        Transform_called (JStr ''b''),
        Subscriber_called \<lparr>callee = 1, arg_value = JStr ''b!'', arg_path = ''title'',
                           tree_at_call = JObj [(''title'', JStr ''b!'')]\<rparr>]"]
  from th [THEN conjunct1] run have b: "batch inbox_store (perform_writes two_writes) =
     (inbox_store\<lparr>state := JObj [(''title'', JStr ''b!'')]\<rparr>,
      [Transform_called (JStr ''a''),
       Subscriber_called \<lparr>callee = 1, arg_value = JStr ''a!'', arg_path = ''title'',
                          tree_at_call = JObj [(''title'', JStr ''a!'')]\<rparr>,
       Transform_called (JStr ''b''),
       Subscriber_called \<lparr>callee = 1, arg_value = JStr ''b!'', arg_path = ''title'',
                          tree_at_call = JObj [(''title'', JStr ''b!'')]\<rparr>],
      Returns ())" by simp
  from th [THEN conjunct2] d s m b have "notified (1::nat) ''title''
       [Transform_called (JStr ''a''),
        Subscriber_called \<lparr>callee = 1, arg_value = JStr ''a!'', arg_path = ''title'',
                           tree_at_call = JObj [(''title'', JStr ''a!'')]\<rparr>,
        Transform_called (JStr ''b''),
        Subscriber_called \<lparr>callee = 1, arg_value = JStr ''b!'', arg_path = ''title'',
                           tree_at_call = JObj [(''title'', JStr ''b!'')]\<rparr>] = 2"
    by (simp add: two_writes_def)
  with d s m b show ?thesis by blast
qed

section \<open>Flags and derived validity\<close>

text \<open>
  C9. The \<open>touched\<close> and \<open>submitAttempted\<close> flags are monotonic: through any sequence of
  events of an adapter (change, input, focus, blur, \<open>markSubmitAttempted\<close>, composition
  start and end), a flag that is set stays set; no handler resets either flag.
\<close>

theorem flags_never_reset:
  "(touched c \<longrightarrow> touched (run_events pf c evs))
   \<and> (submitAttempted c \<longrightarrow> submitAttempted (run_events pf c evs))"
proof (induction evs arbitrary: c)
  case Nil
  show ?case by simp
next
  case (Cons e evs)
  obtain bv ev where e: "e = (bv, ev)" by (cases e)
  from Cons [of "fst (dispatch pf bv c ev)"] dispatch_flags [of c pf bv ev]
  show ?case by (simp add: e)
qed

theorem flags_never_reset_witness:
  "touched (fst (handleFocus (initial_context [] Android)))
   \<and> submitAttempted (fst (markSubmitAttempted (initial_context [] Android)))
   \<and> touched (run_events parse_example (fst (handleFocus (initial_context [] Android))) busy_session)
   \<and> submitAttempted
       (run_events parse_example (fst (markSubmitAttempted (initial_context [] Android))) busy_session)"
proof -
  have t: "touched (fst (handleFocus (initial_context [] Android)))"
    by (simp add: handleFocus_def initial_context_def)
  have sa: "submitAttempted (fst (markSubmitAttempted (initial_context [] Android)))"
    by (simp add: markSubmitAttempted_def)
  from flags_never_reset [of "fst (handleFocus (initial_context [] Android))" parse_example busy_session]
       flags_never_reset [of "fst (markSubmitAttempted (initial_context [] Android))" parse_example busy_session]
       t sa
  show ?thesis by blast
qed

text \<open>
  C10. The config of a binding obtained by \<open>transform(f)\<close> has no validator, whatever the
  parent's config holds. So in every state of the store, for every value stored at the
  derived path, the derived binding's \<open>isValid\<close> is \<open>true\<close> and its \<open>error\<close> is
  \<open>undefined\<close>, and neither getter calls a validator: each getter reads the value at the
  derived path first and gives its answer as soon as that read has returned.
\<close>

theorem derived_binding_has_no_validator:
  "validate (bconfig (snd (binding_transform st b f))) = None
   \<and> isValid st' (snd (binding_transform st b f)) =
       ([], map_result (\<lambda>v. True) (getValue st' (bpath b @ ''_transformed'')))
   \<and> error st' (snd (binding_transform st b f)) =
       ([], map_result (\<lambda>v. JUndefined) (getValue st' (bpath b @ ''_transformed'')))"
  by (auto simp: binding_transform_def bind_def isValid_def error_def then_run_def Let_def
           split: result.splits)

text \<open>
  The derived binding of the examples, after \<open>'a?'\<close> has been stored at its path, and
  before anything has been stored there.
\<close>

theorem derived_binding_has_no_validator_witness:
  "validate (bconfig (snd derived_binding)) = None
   \<and> isValid ((fst derived_binding)\<lparr>state := JObj [(''name_transformed'', JStr ''a?'')]\<rparr>)
       (snd derived_binding) = ([], Returns True)
   \<and> error ((fst derived_binding)\<lparr>state := JObj [(''name_transformed'', JStr ''a?'')]\<rparr>)
       (snd derived_binding) = ([], Returns JUndefined)
   \<and> isValid (fst derived_binding) (snd derived_binding) = ([], Returns True)
   \<and> error (fst derived_binding) (snd derived_binding) = ([], Returns JUndefined)"
proof -
  have p: "bpath (snd name_binding) = ''name''"
    by (simp add: example_defs)
  have g1: "getValue ((fst derived_binding)\<lparr>state := JObj [(''name_transformed'', JStr ''a?'')]\<rparr>)
      ''name_transformed'' = Returns (JStr ''a?'')"
    by (simp add: store_defs)
  have g2: "getValue (fst derived_binding) ''name_transformed'' = Returns JUndefined"
    by (simp add: example_defs store_defs)
  from derived_binding_has_no_validator [of "fst name_binding" "snd name_binding" question
      "(fst derived_binding)\<lparr>state := JObj [(''name_transformed'', JStr ''a?'')]\<rparr>"]
    derived_binding_has_no_validator [of "fst name_binding" "snd name_binding" question
      "fst derived_binding"]
    p g1 g2
  show ?thesis by (simp add: derived_binding_def)
qed

end
